theory Spec2Isabelle
  imports Main
begin

section \<open>Values\<close>

text \<open>
  The property bag, the overlays and the callback arguments are JavaScript values.
  An object is the list of its own fields in insertion order.
\<close>

datatype jsval =
    JUndefined
  | JNull
  | JBool bool
  | JNum int
  | JStr string
  | JObj "(string \<times> jsval) list"

text \<open>What \<open>!v\<close> tests: the falsy values are undefined, null, false, 0 and the empty string.\<close>

fun truthy :: "jsval \<Rightarrow> bool" where
  "truthy JUndefined = False"
| "truthy JNull = False"
| "truthy (JBool b) = b"
| "truthy (JNum n) = (n \<noteq> 0)"
| "truthy (JStr s) = (s \<noteq> [])"
| "truthy (JObj fs) = True"

text \<open>\<open>target[k] = v\<close>: an existing field keeps its place, a new one goes last.\<close>

fun assign :: "string \<Rightarrow> jsval \<Rightarrow> (string \<times> jsval) list \<Rightarrow> (string \<times> jsval) list" where
  "assign k v [] = [(k, v)]"
| "assign k v ((k', v') # t) = (if k' = k then (k, v) # t else (k', v') # assign k v t)"

text \<open>
  Modelled from the spec: \<open>utils/merge\<close>, imported by \<open>StateMachine.ts\<close>, is not among the
  sources. The specification (4.3, step 5) says of a merge step that it "overwrites only the keys
  present in that overlay, deep-merging nested objects (a key present in a later overlay replaces
  the corresponding value entirely at that key path, but sibling keys from earlier overlays
  survive)". \<open>mergeFields t s\<close> goes through the fields of the source \<open>s\<close> in order; a field
  that is an object on both sides is merged recursively, any other field of the source replaces
  the target's. A merge whose target or source is not an object has no key to overwrite.
\<close>

fun mergeFields :: "(string \<times> jsval) list \<Rightarrow> (string \<times> jsval) list \<Rightarrow> (string \<times> jsval) list" where
  "mergeFields t [] = t"
| "mergeFields t ((k, JObj sf) # s) =
     mergeFields
       (assign k (case map_of t k of
                     Some (JObj tf) \<Rightarrow> JObj (mergeFields tf sf)
                   | _ \<Rightarrow> JObj sf) t) s"
| "mergeFields t ((k, v) # s) = mergeFields (assign k v t) s"

fun merge :: "jsval \<Rightarrow> jsval \<Rightarrow> jsval" where
  "merge (JObj t) (JObj s) = JObj (mergeFields t s)"
| "merge target source = target"

text \<open>\<open>cloneDeep\<close> (package clone-deep) copies a value; a copy of a value is that value.\<close>

definition cloneDeep :: "jsval \<Rightarrow> jsval" where
  "cloneDeep v = v"

section \<open>Arrays of callbacks\<close>

text \<open>\<open>Array.prototype.indexOf\<close>: the first index holding the element, or -1.\<close>

fun js_indexOf :: "'a list \<Rightarrow> 'a \<Rightarrow> int" where
  "js_indexOf [] x = - 1"
| "js_indexOf (y # ys) x =
     (if y = x then 0
      else (let i = js_indexOf ys x in if i < 0 then - 1 else i + 1))"

text \<open>
  \<open>Array.prototype.splice(start, deleteCount)\<close> with no inserted items: a negative start
  counts from the end of the array, and the start is clamped to the array.
\<close>

definition js_splice :: "'a list \<Rightarrow> int \<Rightarrow> nat \<Rightarrow> 'a list" where
  "js_splice xs start deleteCount =
     (let len = int (length xs);
          actualStart = nat (if start < 0 then max (len + start) 0 else min start len)
      in take actualStart xs @ drop (actualStart + deleteCount) xs)"

section \<open>The machine\<close>

datatype TransitionError = InvalidTransition | StateNotRegistered

text \<open>
  What a call can throw: an \<open>Error\<close> with its message, or the \<open>TypeError\<close> of reading a
  property of \<open>undefined\<close>.
\<close>

datatype exn = Error string | TypeError

datatype outcome = Returned "TransitionError option" | Threw exn

text \<open>
  The declaration of a state (\<open>StateMachineMetadata\<close>): the parent state and the states it may
  be left for. The class that declares the states gives \<open>this[name]\<close> for the name of a state
  field (the overlay the field was initialised with, \<open>undefined\<close> for any other name) and the
  registry lookup \<open>StateMachineMetadata.getByName\<close>, whose file is not among the sources and
  which is therefore a parameter: a lookup that finds no declaration yields \<open>undefined\<close>.
\<close>

record StateMachineMetadata =
  parentState :: string
  to :: "string list"

record machine_class =
  self :: "string \<Rightarrow> jsval"
  getByName :: "string \<Rightarrow> StateMachineMetadata option"

text \<open>
  The fields of a \<open>StateMachine\<close> followed by those of its \<open>StateMachineInnerStore\<close>.
  A callback is named by a number, the identity of the function.
\<close>

record machine =
  initialTransitions :: "string list"
  logging :: bool
  props :: jsval
  transitioning :: bool
  initialState :: jsval
  currentState :: string
  onEnterCbs :: "string \<Rightarrow> nat list option"
  onLeaveCbs :: "string \<Rightarrow> nat list option"

text \<open>
  What a call does beyond changing the machine, in the order it happens: a line written by
  \<open>console.error\<close>, or the invocation of a callback with its arguments and the machine as the
  callback finds it.
\<close>

datatype effect = ConsoleError string | Invoked nat "jsval list" machine

record opts =
  opts_initialTransitions :: "string list"
  opts_props :: jsval
  opts_logging :: "bool option"

definition empty_transitions_msg :: string where
  "empty_transitions_msg =
     ''opts.initialTransitions must contain at least one valid transition string''"

definition StateMachine_new :: "opts \<Rightarrow> exn + machine" where
  "StateMachine_new opts =
     (if length (opts_initialTransitions opts) = 0 then Inl (Error empty_transitions_msg)
      else Inr \<lparr> initialTransitions = opts_initialTransitions opts,
                 logging = (if opts_logging opts = None then False else True),
                 props = opts_props opts,
                 transitioning = False,
                 initialState = cloneDeep (opts_props opts),
                 currentState = ''initial'',
                 onEnterCbs = Map.empty,
                 onLeaveCbs = Map.empty \<rparr>)"

definition logError :: "machine \<Rightarrow> string \<Rightarrow> effect list" where
  "logError m msg = (if logging m then [ConsoleError msg] else [])"

definition NEXT_STATE_RESTRICTED :: "string \<Rightarrow> string \<Rightarrow> string" where
  "NEXT_STATE_RESTRICTED currentState' stateName =
     ''Navigate to '' @ stateName @ '' restricted by '' @ [CHR 0x27] @ ''to'' @ [CHR 0x27]
       @ '' argument of state '' @ currentState'"

definition not_registered_msg :: "string \<Rightarrow> string" where
  "not_registered_msg targetState =
     ''No state '' @ [CHR 0x27] @ targetState @ [CHR 0x27] @ '' for navigation registered''"

definition isInitialState :: "machine \<Rightarrow> bool" where
  "isInitialState m = (currentState m = ''initial'')"

subsection \<open>Registering and dropping callbacks\<close>

text \<open>
  The two callback stores are plain objects created by \<open>{}\<close>. Reading \<open>store[name]\<close>
  finds the array the store owns under that name, or a member inherited from
  \<open>Object.prototype\<close>, or nothing. The store never owns a property under an inherited name,
  since an array is only created where the lookup found nothing.
\<close>

definition Object_prototype_members :: "string list" where
  "Object_prototype_members =
     [''constructor'', ''__defineGetter__'', ''__defineSetter__'', ''hasOwnProperty'',
      ''__lookupGetter__'', ''__lookupSetter__'', ''isPrototypeOf'', ''propertyIsEnumerable'',
      ''toString'', ''valueOf'', ''__proto__'', ''toLocaleString'']"

datatype slot = Absent | Inherited | Own "nat list"

definition store_get :: "(string \<Rightarrow> nat list option) \<Rightarrow> string \<Rightarrow> slot" where
  "store_get store name =
     (case store name of
        Some cbs \<Rightarrow> Own cbs
      | None \<Rightarrow> if name \<in> set Object_prototype_members then Inherited else Absent)"

text \<open>
  The function returned by a registration closes over the array of its state and over the
  callback; invoking it splices the array at \<open>indexOf(cb)\<close>. An inherited member is truthy
  and has no \<open>push\<close>: registering under such a name throws.
\<close>

datatype handle = EnterHandle string nat | LeaveHandle string nat

definition registerEnterCallback ::
  "string \<Rightarrow> nat \<Rightarrow> machine \<Rightarrow> exn + handle \<times> machine" where
  "registerEnterCallback stateName cb m =
     (case store_get (onEnterCbs m) stateName of
        Inherited \<Rightarrow> Inl TypeError
      | Absent \<Rightarrow>
          Inr (EnterHandle stateName cb, m\<lparr>onEnterCbs := (onEnterCbs m)(stateName \<mapsto> [] @ [cb])\<rparr>)
      | Own stateEnterCbs \<Rightarrow>
          Inr (EnterHandle stateName cb,
               m\<lparr>onEnterCbs := (onEnterCbs m)(stateName \<mapsto> stateEnterCbs @ [cb])\<rparr>))"

definition registerLeaveCallback ::
  "string \<Rightarrow> nat \<Rightarrow> machine \<Rightarrow> exn + handle \<times> machine" where
  "registerLeaveCallback stateName cb m =
     (case store_get (onLeaveCbs m) stateName of
        Inherited \<Rightarrow> Inl TypeError
      | Absent \<Rightarrow>
          Inr (LeaveHandle stateName cb, m\<lparr>onLeaveCbs := (onLeaveCbs m)(stateName \<mapsto> [] @ [cb])\<rparr>)
      | Own stateLeaveCbs \<Rightarrow>
          Inr (LeaveHandle stateName cb,
               m\<lparr>onLeaveCbs := (onLeaveCbs m)(stateName \<mapsto> stateLeaveCbs @ [cb])\<rparr>))"

fun invoke_handle :: "handle \<Rightarrow> machine \<Rightarrow> machine" where
  "invoke_handle (EnterHandle stateName cb) m =
     (case onEnterCbs m stateName of
        None \<Rightarrow> m
      | Some stateEnterCbs \<Rightarrow>
          m\<lparr>onEnterCbs :=
              (onEnterCbs m)(stateName \<mapsto> js_splice stateEnterCbs (js_indexOf stateEnterCbs cb) 1)\<rparr>)"
| "invoke_handle (LeaveHandle stateName cb) m =
     (case onLeaveCbs m stateName of
        None \<Rightarrow> m
      | Some stateLeaveCbs \<Rightarrow>
          m\<lparr>onLeaveCbs :=
              (onLeaveCbs m)(stateName \<mapsto> js_splice stateLeaveCbs (js_indexOf stateLeaveCbs cb) 1)\<rparr>)"

definition onEnter :: "string \<Rightarrow> nat \<Rightarrow> machine \<Rightarrow> exn + handle \<times> machine" where
  "onEnter stateName cb m = registerEnterCallback stateName cb m"

definition onLeave :: "string \<Rightarrow> nat \<Rightarrow> machine \<Rightarrow> exn + handle \<times> machine" where
  "onLeave stateName cb m = registerLeaveCallback stateName cb m"

subsection \<open>Callbacks\<close>

text \<open>
  Callbacks are client code. While it runs, a callback may register callbacks and invoke
  deregistration handles on the machine; these are its writes, made in order and ended by the
  first one that throws. A behaviour says, for a callback, its arguments and the machine it is
  invoked on, which writes the callback makes and whether it then returns (\<open>None\<close>) or throws.
  A callback reads the machine and may call \<open>transitTo\<close> on it, which the behaviour can
  compute. The property bag is written by the engine only (specification, section 3); the
  private fields of the machine and of its store are out of a callback's reach.
\<close>

datatype store_call = CallOnEnter string nat | CallOnLeave string nat | CallHandle handle

type_synonym behaviour = "nat \<Rightarrow> jsval list \<Rightarrow> machine \<Rightarrow> store_call list \<times> exn option"

fun perform :: "store_call \<Rightarrow> machine \<Rightarrow> exn + machine" where
  "perform (CallOnEnter stateName cb) m =
     (case onEnter stateName cb m of Inl e \<Rightarrow> Inl e | Inr (h, m') \<Rightarrow> Inr m')"
| "perform (CallOnLeave stateName cb) m =
     (case onLeave stateName cb m of Inl e \<Rightarrow> Inl e | Inr (h, m') \<Rightarrow> Inr m')"
| "perform (CallHandle h) m = Inr (invoke_handle h m)"

fun perform_all :: "store_call list \<Rightarrow> machine \<Rightarrow> exn option \<times> machine" where
  "perform_all [] m = (None, m)"
| "perform_all (c # cs) m =
     (case perform c m of Inl e \<Rightarrow> (Some e, m) | Inr m' \<Rightarrow> perform_all cs m')"

definition run_callback ::
  "behaviour \<Rightarrow> nat \<Rightarrow> jsval list \<Rightarrow> machine \<Rightarrow> exn option \<times> machine" where
  "run_callback beh cb actuals m =
     (case beh cb actuals m of
        (writes, result) \<Rightarrow>
          (case perform_all writes m of
             (Some e, m') \<Rightarrow> (Some e, m')
           | (None, m') \<Rightarrow> (result, m')))"

text \<open>What no write of a callback touches.\<close>

definition same_core :: "machine \<Rightarrow> machine \<Rightarrow> bool" where
  "same_core m m' =
     (transitioning m' = transitioning m \<and> initialState m' = initialState m \<and>
      props m' = props m \<and> currentState m' = currentState m \<and>
      logging m' = logging m \<and> initialTransitions m' = initialTransitions m)"

subsection \<open>Calling callbacks\<close>

text \<open>
  \<open>Array.prototype.forEach\<close> on the array of a state. The length is read once, before the
  first call; index \<open>k\<close> is then visited while it is below that length, and the callback at
  \<open>k\<close> is called if the array, as it is at that moment, still has an element there. The
  array is the one the handles splice and the registrations push to: \<open>arr m\<close> reads it from
  the machine. \<open>forEach beh arr actuals k n m\<close> visits the \<open>n\<close> indices from \<open>k\<close> on; a
  callback that throws ends the loop.
\<close>

fun forEach ::
  "behaviour \<Rightarrow> (machine \<Rightarrow> nat list) \<Rightarrow> jsval list \<Rightarrow> nat \<Rightarrow> nat \<Rightarrow> machine
     \<Rightarrow> exn option \<times> machine \<times> effect list" where
  "forEach beh arr actuals k 0 m = (None, m, [])"
| "forEach beh arr actuals k (Suc n) m =
     (if k < length (arr m) then
        (case run_callback beh (arr m ! k) actuals m of
           (Some e, m1) \<Rightarrow> (Some e, m1, [Invoked (arr m ! k) actuals m])
         | (None, m1) \<Rightarrow>
             (case forEach beh arr actuals (Suc k) n m1 of
                (r, m2, tr) \<Rightarrow> (r, m2, Invoked (arr m ! k) actuals m # tr)))
      else forEach beh arr actuals (Suc k) n m)"

text \<open>The callbacks a store owns for a state, in the order of the array.\<close>

definition registered :: "(string \<Rightarrow> nat list option) \<Rightarrow> string \<Rightarrow> nat list" where
  "registered cbs stateName = (case cbs stateName of None \<Rightarrow> [] | Some l \<Rightarrow> l)"

text \<open>An inherited member is truthy and has no \<open>forEach\<close>: calling it throws.\<close>

definition callEnterCbs ::
  "behaviour \<Rightarrow> machine \<Rightarrow> string \<Rightarrow> string \<Rightarrow> jsval list
     \<Rightarrow> exn option \<times> machine \<times> effect list" where
  "callEnterCbs beh m prevState stateName args =
     (case store_get (onEnterCbs m) stateName of
        Absent \<Rightarrow> (None, m, [])
      | Inherited \<Rightarrow> (Some TypeError, m, [])
      | Own cbs \<Rightarrow>
          forEach beh (\<lambda>m'. registered (onEnterCbs m') stateName) ([JStr prevState] @ args)
            0 (length cbs) m)"

definition callLeaveCbs ::
  "behaviour \<Rightarrow> machine \<Rightarrow> string \<Rightarrow> exn option \<times> machine \<times> effect list" where
  "callLeaveCbs beh m targetState =
     (let stateName = currentState m
      in case store_get (onLeaveCbs m) stateName of
           Absent \<Rightarrow> (None, m, [])
         | Inherited \<Rightarrow> (Some TypeError, m, [])
         | Own cbs \<Rightarrow>
             forEach beh (\<lambda>m'. registered (onLeaveCbs m') stateName) [JStr targetState]
               0 (length cbs) m)"

subsection \<open>The transition\<close>

text \<open>
  The loop that collects the overlays of the ancestors. Reading \<open>parentState\<close> of a state
  without declaration throws; a parent chain that never reaches the initial state keeps the
  loop running, and the result is \<open>None\<close>.
\<close>

partial_function (option) parentChain ::
  "machine_class \<Rightarrow> string \<Rightarrow> jsval list \<Rightarrow> (exn + jsval list) option" where
  "parentChain cls parentStateName stateChain =
     (if parentStateName \<noteq> ''initial'' then
        (case getByName cls parentStateName of
           None \<Rightarrow> Some (Inl TypeError)
         | Some prevStateProps \<Rightarrow>
             parentChain cls (parentState prevStateProps) (self cls parentStateName # stateChain))
      else Some (Inr stateChain))"

declare parentChain.simps [code]

definition makeChain ::
  "machine_class \<Rightarrow> string \<Rightarrow> jsval \<Rightarrow> (exn + jsval list) option" where
  "makeChain cls targetState stateToApply =
     (if targetState \<noteq> ''initial'' then
        (case getByName cls targetState of
           None \<Rightarrow> Some (Inl TypeError)
         | Some targetStateProps \<Rightarrow> parentChain cls (parentState targetStateProps) [stateToApply])
      else Some (Inr [stateToApply]))"

text \<open>The list the target is looked up in; reading \<open>to\<close> of a missing declaration throws.\<close>

definition permitted :: "machine_class \<Rightarrow> machine \<Rightarrow> exn + string list" where
  "permitted cls m =
     (if isInitialState m then Inr (initialTransitions m)
      else (case getByName cls (currentState m) of
              None \<Rightarrow> Inl TypeError
            | Some currentStateProps \<Rightarrow> Inr (to currentStateProps)))"

definition applyChain :: "jsval \<Rightarrow> jsval list \<Rightarrow> jsval" where
  "applyChain p stateChain = foldl merge p stateChain"

definition stateToApply :: "machine_class \<Rightarrow> machine \<Rightarrow> string \<Rightarrow> jsval" where
  "stateToApply cls m targetState =
     (if targetState \<noteq> ''initial'' then self cls targetState else initialState m)"

definition private_transitTo ::
  "behaviour \<Rightarrow> machine_class \<Rightarrow> machine \<Rightarrow> string \<Rightarrow> jsval list
     \<Rightarrow> (outcome \<times> machine \<times> effect list) option" where
  "private_transitTo beh cls m targetState args =
     (if \<not> truthy (stateToApply cls m targetState) then
        Some (Returned (Some StateNotRegistered), m, logError m (not_registered_msg targetState))
      else
        (case permitted cls m of
           Inl e \<Rightarrow> Some (Threw e, m, [])
         | Inr allowed \<Rightarrow>
             if targetState \<notin> set allowed then
               Some (Returned (Some InvalidTransition), m,
                     logError m (NEXT_STATE_RESTRICTED (currentState m) targetState))
             else
               (case makeChain cls targetState (stateToApply cls m targetState) of
                  None \<Rightarrow> None
                | Some (Inl e) \<Rightarrow> Some (Threw e, m, [])
                | Some (Inr stateChain) \<Rightarrow>
                    (case callLeaveCbs beh m targetState of
                       (Some e, m1, tr1) \<Rightarrow> Some (Threw e, m1, tr1)
                     | (None, m1, tr1) \<Rightarrow>
                         (let m2 = m1\<lparr>props :=
                                       applyChain (merge (props m1) (initialState m1)) stateChain\<rparr>;
                              prevState = currentState m2;
                              m3 = m2\<lparr>currentState := targetState\<rparr>
                          in case callEnterCbs beh m3 prevState targetState args of
                               (Some e, m4, tr2) \<Rightarrow> Some (Threw e, m4, tr1 @ tr2)
                             | (None, m4, tr2) \<Rightarrow> Some (Returned None, m4, tr1 @ tr2))))))"

definition recursive_msg :: string where
  "recursive_msg = ''Calling transitTo from an onEnter/onLeave callback is not supported''"

definition transitTo ::
  "behaviour \<Rightarrow> machine_class \<Rightarrow> machine \<Rightarrow> string \<Rightarrow> jsval list
     \<Rightarrow> (outcome \<times> machine \<times> effect list) option" where
  "transitTo beh cls m targetState args =
     (if transitioning m then Some (Threw (Error recursive_msg), m, [])
      else
        (case private_transitTo beh cls (m\<lparr>transitioning := True\<rparr>) targetState args of
           None \<Rightarrow> None
         | Some (Returned ret, m', tr) \<Rightarrow> Some (Returned ret, m'\<lparr>transitioning := False\<rparr>, tr)
         | Some (Threw e, m', tr) \<Rightarrow> Some (Threw e, m', tr)))"

section \<open>Clients\<close>

text \<open>
  A client makes calls on the public operations of a machine, one after the other, and catches
  what a call throws. The outcomes of its \<open>transitTo\<close> calls are collected in order.
\<close>

datatype call =
    TransitTo string "jsval list"
  | OnEnter string nat
  | OnLeave string nat
  | Drop handle

fun is_transit :: "call \<Rightarrow> bool" where
  "is_transit (TransitTo targetState args) = True"
| "is_transit c = False"

fun run_calls ::
  "behaviour \<Rightarrow> machine_class \<Rightarrow> machine \<Rightarrow> call list
     \<Rightarrow> (outcome list \<times> machine \<times> effect list) option" where
  "run_calls beh cls m [] = Some ([], m, [])"
| "run_calls beh cls m (TransitTo targetState args # rest) =
     (case transitTo beh cls m targetState args of
        None \<Rightarrow> None
      | Some (out, m1, tr1) \<Rightarrow>
          (case run_calls beh cls m1 rest of
             None \<Rightarrow> None
           | Some (outs, m2, tr2) \<Rightarrow> Some (out # outs, m2, tr1 @ tr2)))"
| "run_calls beh cls m (OnEnter stateName cb # rest) =
     (case onEnter stateName cb m of
        Inl e \<Rightarrow> run_calls beh cls m rest
      | Inr (h, m1) \<Rightarrow> run_calls beh cls m1 rest)"
| "run_calls beh cls m (OnLeave stateName cb # rest) =
     (case onLeave stateName cb m of
        Inl e \<Rightarrow> run_calls beh cls m rest
      | Inr (h, m1) \<Rightarrow> run_calls beh cls m1 rest)"
| "run_calls beh cls m (Drop h # rest) = run_calls beh cls (invoke_handle h m) rest"

section \<open>The overlay chain, as the specification words it\<close>

text \<open>
  \<open>lineage cls s names\<close>: \<open>names\<close> lists \<open>s\<close>, its parent, the parent of that, and
  so on up to the state whose parent is the initial state. \<open>pathTo cls t names\<close>: \<open>names\<close> is
  the same list from the root down to the target \<open>t\<close>; the initial state is its own path.
  \<open>overlayOf\<close> is the overlay a name stands for.
\<close>

fun lineage :: "machine_class \<Rightarrow> string \<Rightarrow> string list \<Rightarrow> bool" where
  "lineage cls s [] = (s = ''initial'')"
| "lineage cls s (n # ns) =
     (s = n \<and> n \<noteq> ''initial'' \<and>
      (case getByName cls n of None \<Rightarrow> False | Some d \<Rightarrow> lineage cls (parentState d) ns))"

definition pathTo :: "machine_class \<Rightarrow> string \<Rightarrow> string list \<Rightarrow> bool" where
  "pathTo cls t names =
     (if t = ''initial'' then names = [''initial''] else lineage cls t (rev names))"

definition overlayOf :: "machine_class \<Rightarrow> machine \<Rightarrow> string \<Rightarrow> jsval" where
  "overlayOf cls m name = (if name = ''initial'' then initialState m else self cls name)"

definition overlaid :: "machine_class \<Rightarrow> machine \<Rightarrow> jsval \<Rightarrow> string list \<Rightarrow> jsval" where
  "overlaid cls m base names = foldl merge base (map (overlayOf cls m) names)"

text \<open>
  Fields of a bag: \<open>field v k\<close> is the value of field \<open>k\<close> of the object \<open>v\<close>,
  \<open>sets_field v k\<close> says that the object \<open>v\<close> has a field \<open>k\<close>, and
  \<open>sets_scalar v k x\<close> that the object \<open>v\<close> sets its field \<open>k\<close> to \<open>x\<close>, which is
  not an object.
\<close>

fun field :: "jsval \<Rightarrow> string \<Rightarrow> jsval option" where
  "field (JObj fs) k = map_of fs k"
| "field v k = None"

fun sets_field :: "jsval \<Rightarrow> string \<Rightarrow> bool" where
  "sets_field (JObj fs) k = (k \<in> fst ` set fs)"
| "sets_field v k = False"

fun is_object :: "jsval \<Rightarrow> bool" where
  "is_object (JObj fs) = True"
| "is_object v = False"

definition sets_scalar :: "jsval \<Rightarrow> string \<Rightarrow> jsval \<Rightarrow> bool" where
  "sets_scalar overlay k v =
     (case overlay of
        JObj fs \<Rightarrow> distinct (map fst fs) \<and> (k, v) \<in> set fs \<and> \<not> is_object v
      | _ \<Rightarrow> False)"


section \<open>Example machines\<close>

text \<open>The behaviour in which every callback returns.\<close>

definition quiet :: behaviour where
  "quiet cb actuals m = ([], None)"

text \<open>The traffic light of the README and of \<open>example/traffic.ts\<close>.\<close>

definition traffic :: machine_class where
  "traffic =
     \<lparr> self = (\<lambda>n. if n = ''Red'' then JObj [(''message'', JStr ''STOP'')]
                  else if n = ''Orange'' then JObj [(''message'', JStr ''CAUTION'')]
                  else if n = ''Green'' then JObj [(''message'', JStr ''GO''), (''safe'', JBool True)]
                  else JUndefined),
       getByName =
         (\<lambda>n. if n = ''Red'' then Some \<lparr>parentState = ''initial'', to = [''Green'']\<rparr>
              else if n = ''Orange'' then
                Some \<lparr>parentState = ''initial'', to = [''Green'', ''Red'']\<rparr>
              else if n = ''Green'' then Some \<lparr>parentState = ''initial'', to = [''Orange'']\<rparr>
              else None) \<rparr>"

definition traffic_opts :: opts where
  "traffic_opts =
     \<lparr> opts_initialTransitions = [''Green''],
       opts_props = JObj [(''message'', JStr ''OFF''), (''safe'', JBool False)],
       opts_logging = None \<rparr>"

definition traffic_machine :: machine where
  "traffic_machine =
     \<lparr> initialTransitions = [''Green''],
       logging = False,
       props = JObj [(''message'', JStr ''OFF''), (''safe'', JBool False)],
       transitioning = False,
       initialState = JObj [(''message'', JStr ''OFF''), (''safe'', JBool False)],
       currentState = ''initial'',
       onEnterCbs = Map.empty,
       onLeaveCbs = Map.empty \<rparr>"

definition traffic_green :: machine where
  "traffic_green =
     traffic_machine\<lparr>props := JObj [(''message'', JStr ''GO''), (''safe'', JBool True)],
                     currentState := ''Green''\<rparr>"

definition traffic_orange :: machine where
  "traffic_orange =
     traffic_machine\<lparr>props := JObj [(''message'', JStr ''CAUTION''), (''safe'', JBool False)],
                     currentState := ''Orange''\<rparr>"

definition traffic_red :: machine where
  "traffic_red =
     traffic_machine\<lparr>props := JObj [(''message'', JStr ''STOP''), (''safe'', JBool False)],
                     currentState := ''Red''\<rparr>"

text \<open>
  The traffic light with a leave callback (1) on the initial state and two enter callbacks
  (2, then 3) on Green.
\<close>

definition hooked :: machine where
  "hooked =
     traffic_machine\<lparr>onEnterCbs := [''Green'' \<mapsto> [2, 3]], onLeaveCbs := [''initial'' \<mapsto> [1]]\<rparr>"

definition hooked_green :: machine where
  "hooked_green =
     hooked\<lparr>props := JObj [(''message'', JStr ''GO''), (''safe'', JBool True)],
            currentState := ''Green''\<rparr>"

text \<open>
  A callback (2) that calls \<open>transitTo\<close> on the machine it is invoked on and does not catch
  what the call throws.
\<close>

definition reenter :: behaviour where
  "reenter cb actuals m =
     ([], if cb = 2 then
            (case transitTo quiet traffic m ''Orange'' [] of
               Some (Threw e, m', tr) \<Rightarrow> Some e
             | _ \<Rightarrow> None)
          else None)"

text \<open>
  A callback (2) that runs once: it invokes the handle of its own registration as enter
  callback of Green.
\<close>

definition one_shot :: behaviour where
  "one_shot cb actuals m =
     (if cb = 2 then [CallHandle (EnterHandle ''Green'' 2)] else [], None)"

text \<open>
  A machine whose property type has an optional field \<open>extra\<close>: the initial properties
  leave it out, state A sets it, state B sets nothing.
\<close>

definition optional :: machine_class where
  "optional =
     \<lparr> self = (\<lambda>n. if n = ''A'' then JObj [(''extra'', JNum 1)]
                  else if n = ''B'' then JObj []
                  else JUndefined),
       getByName =
         (\<lambda>n. if n = ''A'' then Some \<lparr>parentState = ''initial'', to = [''B'']\<rparr>
              else if n = ''B'' then Some \<lparr>parentState = ''initial'', to = [''A'']\<rparr>
              else None) \<rparr>"

definition optional_opts :: opts where
  "optional_opts =
     \<lparr> opts_initialTransitions = [''A''],
       opts_props = JObj [(''message'', JStr ''OFF'')],
       opts_logging = None \<rparr>"

definition optional_machine :: machine where
  "optional_machine =
     \<lparr> initialTransitions = [''A''],
       logging = False,
       props = JObj [(''message'', JStr ''OFF'')],
       transitioning = False,
       initialState = JObj [(''message'', JStr ''OFF'')],
       currentState = ''initial'',
       onEnterCbs = Map.empty,
       onLeaveCbs = Map.empty \<rparr>"

definition optional_A :: machine where
  "optional_A =
     optional_machine\<lparr>props := JObj [(''message'', JStr ''OFF''), (''extra'', JNum 1)],
                      currentState := ''A''\<rparr>"

definition optional_B :: machine where
  "optional_B =
     optional_machine\<lparr>props := JObj [(''message'', JStr ''OFF''), (''extra'', JNum 1)],
                      currentState := ''B''\<rparr>"

text \<open>A machine whose only state lists the initial state among the states it may be left for.\<close>

definition resettable :: machine_class where
  "resettable =
     \<lparr> self = (\<lambda>n. if n = ''A'' then JObj [(''message'', JStr ''ON'')] else JUndefined),
       getByName =
         (\<lambda>n. if n = ''A'' then Some \<lparr>parentState = ''initial'', to = [''initial'']\<rparr>
              else None) \<rparr>"

definition resettable_opts :: opts where
  "resettable_opts =
     \<lparr> opts_initialTransitions = [''A''],
       opts_props = JObj [(''message'', JStr ''OFF'')],
       opts_logging = None \<rparr>"

definition resettable_machine :: machine where
  "resettable_machine =
     \<lparr> initialTransitions = [''A''],
       logging = False,
       props = JObj [(''message'', JStr ''OFF'')],
       transitioning = False,
       initialState = JObj [(''message'', JStr ''OFF'')],
       currentState = ''initial'',
       onEnterCbs = Map.empty,
       onLeaveCbs = Map.empty \<rparr>"

definition resettable_A :: machine where
  "resettable_A =
     resettable_machine\<lparr>props := JObj [(''message'', JStr ''ON'')], currentState := ''A''\<rparr>"

text \<open>
  The machine of the tests: \<open>successState\<close> extends \<open>doneState\<close>, which extends
  \<open>mainState\<close>. Here it is in \<open>requestState\<close>, two transitions after construction.
\<close>

definition form :: machine_class where
  "form =
     \<lparr> self =
         (\<lambda>n. if n = ''mainState'' then JObj []
              else if n = ''requestState'' then JObj [(''text'', JStr ''request'')]
              else if n = ''doneState'' then
                JObj [(''text'', JStr ''done''), (''alert'', JObj [(''visible'', JBool True)])]
              else if n = ''successState'' then
                JObj [(''alert'', JObj [(''text'', JStr ''success'')])]
              else if n = ''errorState'' then
                JObj [(''alert'', JObj [(''text'', JStr ''error'')])]
              else JUndefined),
       getByName =
         (\<lambda>n. if n = ''mainState'' then
                Some \<lparr>parentState = ''initial'', to = [''requestState'']\<rparr>
              else if n = ''requestState'' then
                Some \<lparr>parentState = ''mainState'', to = [''successState'', ''errorState'']\<rparr>
              else if n = ''doneState'' then Some \<lparr>parentState = ''mainState'', to = []\<rparr>
              else if n = ''successState'' then
                Some \<lparr>parentState = ''doneState'', to = [''mainState'']\<rparr>
              else if n = ''errorState'' then
                Some \<lparr>parentState = ''doneState'', to = [''mainState'']\<rparr>
              else None) \<rparr>"

definition form_request :: machine where
  "form_request =
     \<lparr> initialTransitions = [''mainState''],
       logging = False,
       props = JObj [(''text'', JStr ''request''),
                     (''alert'', JObj [(''text'', JStr ''alert''), (''visible'', JBool False)])],
       transitioning = False,
       initialState = JObj [(''text'', JStr ''do''),
                            (''alert'', JObj [(''text'', JStr ''alert''), (''visible'', JBool False)])],
       currentState = ''requestState'',
       onEnterCbs = Map.empty,
       onLeaveCbs = Map.empty \<rparr>"

definition form_success :: machine where
  "form_success =
     form_request\<lparr>props := JObj [(''text'', JStr ''done''),
                                  (''alert'', JObj [(''text'', JStr ''success''),
                                                    (''visible'', JBool True)])],
                  currentState := ''successState''\<rparr>"

section \<open>Lemmas on callbacks and loops\<close>

lemma same_core_refl [simp]: "same_core m m"
  by (simp add: same_core_def)

lemma same_core_trans: "same_core a b \<Longrightarrow> same_core b c \<Longrightarrow> same_core a c"
  by (simp add: same_core_def)

lemma onEnter_core: "onEnter stateName cb m = Inr (h, m') \<Longrightarrow> same_core m m'"
  by (auto simp: onEnter_def registerEnterCallback_def same_core_def split: slot.splits)

lemma onLeave_core: "onLeave stateName cb m = Inr (h, m') \<Longrightarrow> same_core m m'"
  by (auto simp: onLeave_def registerLeaveCallback_def same_core_def split: slot.splits)

lemma invoke_handle_core: "same_core m (invoke_handle h m)"
  by (cases h) (auto simp: same_core_def split: option.splits)

lemma perform_core: "perform c m = Inr m' \<Longrightarrow> same_core m m'"
  by (cases c) (auto split: sum.splits dest: onEnter_core onLeave_core simp: invoke_handle_core)

lemma perform_all_core: "perform_all cs m = (r, m') \<Longrightarrow> same_core m m'"
proof (induction cs arbitrary: m)
  case Nil
  then show ?case by simp
next
  case (Cons c cs)
  show ?case
  proof (cases "perform c m")
    case (Inl e)
    with Cons.prems show ?thesis by simp
  next
    case (Inr m1)
    with Cons.prems have "perform_all cs m1 = (r, m')" by simp
    from same_core_trans[OF perform_core[OF Inr] Cons.IH[OF this]] show ?thesis .
  qed
qed

lemma run_callback_core: "run_callback beh cb actuals m = (r, m') \<Longrightarrow> same_core m m'"
  unfolding run_callback_def
  by (auto split: prod.splits option.splits dest: perform_all_core)

lemma forEach_core:
  "forEach beh arr actuals k n m = (r, m', tr) \<Longrightarrow> same_core m m'"
proof (induction n arbitrary: k m r m' tr)
  case 0
  then show ?case by simp
next
  case (Suc n)
  show ?case
  proof (cases "k < length (arr m)")
    case False
    with Suc.prems have "forEach beh arr actuals (Suc k) n m = (r, m', tr)" by simp
    from Suc.IH[OF this] show ?thesis .
  next
    case True
    obtain r1 m1 where rc: "run_callback beh (arr m ! k) actuals m = (r1, m1)"
      by (cases "run_callback beh (arr m ! k) actuals m")
    show ?thesis
    proof (cases r1)
      case (Some e)
      with Suc.prems True rc have "m' = m1" by simp
      with run_callback_core[OF rc] show ?thesis by simp
    next
      case None
      obtain r2 m2 tr2 where fe: "forEach beh arr actuals (Suc k) n m1 = (r2, m2, tr2)"
        by (cases "forEach beh arr actuals (Suc k) n m1") auto
      with Suc.prems True rc None have "m' = m2" by simp
      with same_core_trans[OF run_callback_core[OF rc] Suc.IH[OF fe]] show ?thesis by simp
    qed
  qed
qed



lemma forEach_thrower:
  "forEach beh arr actuals k n m = (r, m', tr) \<Longrightarrow> Invoked cb a s \<in> set tr \<Longrightarrow>
     fst (run_callback beh cb a s) = Some e \<Longrightarrow> r = Some e"
proof (induction n arbitrary: k m r m' tr)
  case 0
  then show ?case by simp
next
  case (Suc n)
  then show ?case
    by (fastforce split: if_splits prod.splits option.splits)
qed

lemma parentChain_lineage_aux:
  assumes "parentChain cls p acc = Some r"
  shows "\<forall>chain. r = Inr chain \<longrightarrow>
           (\<exists>names. lineage cls p names \<and> chain = map (self cls) (rev names) @ acc)"
proof (rule parentChain.raw_induct
    [where P = "\<lambda>cls p acc r. \<forall>chain. r = Inr chain \<longrightarrow>
                  (\<exists>names. lineage cls p names \<and> chain = map (self cls) (rev names) @ acc)",
     OF _ assms], goal_cases)
  case (1 walk cls p acc r)
  show ?case
  proof (intro allI impI)
    fix chain assume r: "r = Inr chain"
    show "\<exists>names. lineage cls p names \<and> chain = map (self cls) (rev names) @ acc"
    proof (cases "p = ''initial''")
      case True
      with 1(2) r have "chain = acc" by simp
      with True show ?thesis by (intro exI[of _ "[]"]) simp
    next
      case False
      with 1(2) r obtain d where d: "getByName cls p = Some d"
        and rec: "walk cls (parentState d) (self cls p # acc) = Some (Inr chain)"
        by (auto split: option.splits)
      from 1(1)[OF rec] obtain names where
        "lineage cls (parentState d) names" "chain = map (self cls) (rev names) @ self cls p # acc"
        by blast
      with False d show ?thesis by (intro exI[of _ "p # names"]) simp
    qed
  qed
qed

lemma parentChain_lineage:
  "parentChain cls p acc = Some (Inr chain) \<Longrightarrow>
     \<exists>names. lineage cls p names \<and> chain = map (self cls) (rev names) @ acc"
  using parentChain_lineage_aux by blast

lemma lineage_parentChain:
  "lineage cls p names \<Longrightarrow>
     parentChain cls p acc = Some (Inr (map (self cls) (rev names) @ acc))"
proof (induction names arbitrary: p acc)
  case Nil
  then show ?case by (simp add: parentChain.simps)
next
  case (Cons n ns)
  then obtain d where d: "getByName cls p = Some d" "p = n" "p \<noteq> ''initial''"
    "lineage cls (parentState d) ns"
    by (auto split: option.splits)
  from Cons.IH[OF d(4), of "self cls p # acc"] d show ?case
    by (subst parentChain.simps) simp
qed

lemma lineage_unique: "lineage cls p names \<Longrightarrow> lineage cls p names' \<Longrightarrow> names = names'"
proof (induction names arbitrary: p names')
  case Nil
  then show ?case by (cases names') auto
next
  case (Cons n ns)
  then show ?case by (cases names') (auto split: option.splits)
qed

lemma makeChain_pathTo:
  assumes "makeChain cls t (stateToApply cls m t) = Some (Inr chain)"
  shows "\<exists>names. pathTo cls t names \<and> chain = map (overlayOf cls m) names"
proof (cases "t = ''initial''")
  case True
  with assms show ?thesis
    by (intro exI[of _ "[''initial'']"]) (simp add: makeChain_def stateToApply_def pathTo_def overlayOf_def)
next
  case False
  with assms obtain d where d: "getByName cls t = Some d"
    and pc: "parentChain cls (parentState d) [self cls t] = Some (Inr chain)"
    by (auto simp: makeChain_def stateToApply_def split: option.splits)
  from parentChain_lineage[OF pc] obtain names where
    n: "lineage cls (parentState d) names" "chain = map (self cls) (rev names) @ [self cls t]"
    by blast
  have init: "''initial'' \<notin> set names" if "lineage cls q names" for q
    using that by (induction names arbitrary: q) (auto split: option.splits)
  have "pathTo cls t (rev names @ [t])" using False d n(1) by (simp add: pathTo_def)
  moreover have "chain = map (overlayOf cls m) (rev names @ [t])"
    using n(2) False init[OF n(1)] by (auto simp: overlayOf_def)
  ultimately show ?thesis by blast
qed

lemma pathTo_makeChain:
  assumes "pathTo cls t names"
  shows "makeChain cls t (stateToApply cls m t) = Some (Inr (map (overlayOf cls m) names))"
proof (cases "t = ''initial''")
  case True
  with assms show ?thesis
    by (simp add: makeChain_def stateToApply_def pathTo_def overlayOf_def)
next
  case False
  with assms have l: "lineage cls t (rev names)" by (simp add: pathTo_def)
  with False obtain ns where ns: "rev names = t # ns" by (cases "rev names") auto
  with l False obtain d where d: "getByName cls t = Some d" "lineage cls (parentState d) ns"
    by (auto split: option.splits)
  have init: "''initial'' \<notin> set ns'" if "lineage cls q ns'" for q ns'
    using that by (induction ns' arbitrary: q) (auto split: option.splits)
  have names: "names = rev ns @ [t]" using ns by (metis rev.simps(2) rev_rev_ident)
  have "map (overlayOf cls m) names = map (self cls) (rev ns) @ [self cls t]"
    using init[OF d(2)] False unfolding names by (auto simp: overlayOf_def)
  with lineage_parentChain[OF d(2), of "[self cls t]"] d(1) False show ?thesis
    by (simp add: makeChain_def stateToApply_def)
qed

lemma pathTo_unique: "pathTo cls t names \<Longrightarrow> pathTo cls t names' \<Longrightarrow> names = names'"
  by (auto simp: pathTo_def split: if_splits dest: lineage_unique)

section \<open>The guard and the body\<close>

lemma callLeaveCbs_core: "callLeaveCbs beh m t = (r, m', tr) \<Longrightarrow> same_core m m'"
  unfolding callLeaveCbs_def
  by (auto simp: Let_def split: slot.splits dest: forEach_core)

lemma callEnterCbs_core: "callEnterCbs beh m p t args = (r, m', tr) \<Longrightarrow> same_core m m'"
  unfolding callEnterCbs_def
  by (auto simp: Let_def split: slot.splits dest: forEach_core)



lemma private_success:
  assumes "private_transitTo beh cls m t args = Some (Returned None, m', tr)"
  shows "\<exists>allowed chain m1 tr1 tr2.
           truthy (stateToApply cls m t) \<and> permitted cls m = Inr allowed \<and> t \<in> set allowed \<and>
           makeChain cls t (stateToApply cls m t) = Some (Inr chain) \<and>
           callLeaveCbs beh m t = (None, m1, tr1) \<and>
           callEnterCbs beh
             (m1\<lparr>props := applyChain (merge (props m1) (initialState m1)) chain,
                 currentState := t\<rparr>) (currentState m1) t args = (None, m', tr2) \<and>
           tr = tr1 @ tr2"
  using assms unfolding private_transitTo_def
  by (auto simp: Let_def split: if_splits sum.splits option.splits prod.splits)

lemma private_failure:
  assumes "private_transitTo beh cls m t args = Some (Returned (Some err), m', tr)"
  shows "m' = m \<and>
         (err = StateNotRegistered \<and> \<not> truthy (stateToApply cls m t) \<and>
            tr = logError m (not_registered_msg t)
          \<or> err = InvalidTransition \<and> truthy (stateToApply cls m t) \<and>
            (\<exists>allowed. permitted cls m = Inr allowed \<and> t \<notin> set allowed) \<and>
            tr = logError m (NEXT_STATE_RESTRICTED (currentState m) t))"
  using assms unfolding private_transitTo_def
  by (auto simp: Let_def split: if_splits sum.splits option.splits prod.splits)

lemma private_frame:
  assumes "private_transitTo beh cls m t args = Some (out, m', tr)"
  shows "transitioning m' = transitioning m \<and> initialState m' = initialState m \<and>
         logging m' = logging m \<and> initialTransitions m' = initialTransitions m"
  using assms unfolding private_transitTo_def
  by (auto simp: Let_def same_core_def split: if_splits sum.splits option.splits prod.splits
      dest!: callLeaveCbs_core callEnterCbs_core)



lemma private_thrower:
  assumes "private_transitTo beh cls m t args = Some (out, m', tr)"
    and "Invoked cb a s \<in> set tr" "fst (run_callback beh cb a s) = Some e"
  shows "out = Threw e"
  using assms unfolding private_transitTo_def callLeaveCbs_def callEnterCbs_def
  by (auto simp: Let_def logError_def
      split: if_splits sum.splits option.splits prod.splits slot.splits
      dest: forEach_thrower)

lemma transitTo_in_flight:
  "transitioning m \<Longrightarrow> transitTo beh cls m t args = Some (Threw (Error recursive_msg), m, [])"
  by (simp add: transitTo_def)

lemma transitTo_cases:
  assumes "transitTo beh cls m t args = Some (out, m', tr)"
  shows "(transitioning m \<and> out = Threw (Error recursive_msg) \<and> m' = m \<and> tr = [])
       \<or> (\<not> transitioning m \<and>
           (\<exists>m1. private_transitTo beh cls (m\<lparr>transitioning := True\<rparr>) t args = Some (out, m1, tr) \<and>
                 (case out of Returned ret \<Rightarrow> m' = m1\<lparr>transitioning := False\<rparr> | Threw e \<Rightarrow> m' = m1)))"
  using assms unfolding transitTo_def
  by (auto split: if_splits option.splits prod.splits outcome.splits)

lemma record_flag_restore: "\<not> transitioning m \<Longrightarrow> m\<lparr>transitioning := False\<rparr> = m"
  by (cases m) simp

lemma record_flag_restore2: "\<not> transitioning m \<Longrightarrow> m\<lparr>transitioning := True, transitioning := False\<rparr> = m"
  by (cases m) simp

lemma stateToApply_flag [simp]:
  "stateToApply cls (m\<lparr>transitioning := b\<rparr>) t = stateToApply cls m t"
  by (simp add: stateToApply_def)

lemma permitted_flag [simp]: "permitted cls (m\<lparr>transitioning := b\<rparr>) = permitted cls m"
  by (simp add: permitted_def isInitialState_def)

lemma logError_flag [simp]: "logError (m\<lparr>transitioning := b\<rparr>) msg = logError m msg"
  by (simp add: logError_def)

lemma transitTo_unregistered:
  assumes "\<not> transitioning m" "\<not> truthy (stateToApply cls m targetState)"
  shows "transitTo beh cls m targetState args =
           Some (Returned (Some StateNotRegistered), m, logError m (not_registered_msg targetState))"
  using assms
  by (simp add: transitTo_def private_transitTo_def record_flag_restore2)

lemma transitTo_not_permitted:
  assumes "\<not> transitioning m" "truthy (stateToApply cls m targetState)"
    "permitted cls m = Inr allowed" "targetState \<notin> set allowed"
  shows "transitTo beh cls m targetState args =
           Some (Returned (Some InvalidTransition), m,
                 logError m (NEXT_STATE_RESTRICTED (currentState m) targetState))"
  using assms
  by (simp add: transitTo_def private_transitTo_def record_flag_restore2)

lemma run_calls_in_flight:
  "transitioning m \<Longrightarrow>
     \<exists>m'. run_calls beh cls m calls
            = Some (replicate (length (filter is_transit calls)) (Threw (Error recursive_msg)), m', [])
          \<and> transitioning m'"
proof (induction beh cls m calls rule: run_calls.induct)
  case (1 beh cls m)
  then show ?case by simp
next
  case (2 beh cls m targetState args rest)
  from "2.prems" have t: "transitTo beh cls m targetState args = Some (Threw (Error recursive_msg), m, [])"
    by (rule transitTo_in_flight)
  from "2.IH"[OF t refl refl "2.prems"] t show ?case by auto
next
  case (3 beh cls m stateName cb rest)
  show ?case
  proof (cases "onEnter stateName cb m")
    case (Inl e)
    with 3 show ?thesis by simp
  next
    case (Inr hm)
    obtain h m1 where hm: "hm = (h, m1)" by (cases hm)
    from onEnter_core[OF Inr[unfolded hm]] "3.prems" have "transitioning m1"
      by (simp add: same_core_def)
    from "3.IH"(2)[OF Inr hm[symmetric] this] Inr hm show ?thesis by simp
  qed
next
  case (4 beh cls m stateName cb rest)
  show ?case
  proof (cases "onLeave stateName cb m")
    case (Inl e)
    with 4 show ?thesis by simp
  next
    case (Inr hm)
    obtain h m1 where hm: "hm = (h, m1)" by (cases hm)
    from onLeave_core[OF Inr[unfolded hm]] "4.prems" have "transitioning m1"
      by (simp add: same_core_def)
    from "4.IH"(2)[OF Inr hm[symmetric] this] Inr hm show ?thesis by simp
  qed
next
  case (5 beh cls m h rest)
  from invoke_handle_core[of m h] "5.prems" have "transitioning (invoke_handle h m)"
    by (simp add: same_core_def)
  from "5.IH"[OF this] show ?case by simp
qed

lemma run_callback_no_writes:
  "fst (beh cb actuals m) = [] \<Longrightarrow> run_callback beh cb actuals m = (snd (beh cb actuals m), m)"
  by (cases "beh cb actuals m") (simp add: run_callback_def)

lemma forEach_no_writes:
  assumes nw: "\<forall>cb a s. fst (beh cb a s) = []"
  shows "forEach beh arr actuals k n m = (None, m', tr) \<Longrightarrow> k + n = length (arr m) \<Longrightarrow>
           m' = m \<and> tr = map (\<lambda>cb. Invoked cb actuals m) (drop k (arr m))"
proof (induction n arbitrary: k tr m')
  case 0
  then show ?case by simp
next
  case (Suc n)
  from Suc.prems(2) have k: "k < length (arr m)" by simp
  from nw have rc: "run_callback beh (arr m ! k) actuals m = (snd (beh (arr m ! k) actuals m), m)"
    by (simp add: run_callback_no_writes)
  obtain r2 m2 tr2 where fe: "forEach beh arr actuals (Suc k) n m = (r2, m2, tr2)"
    by (cases "forEach beh arr actuals (Suc k) n m") auto
  from Suc.prems(1) k rc fe have r: "snd (beh (arr m ! k) actuals m) = None" "r2 = None"
    "m' = m2" "tr = Invoked (arr m ! k) actuals m # tr2"
    by (auto split: option.splits)
  from Suc.IH[OF fe[unfolded r(2)]] Suc.prems(2) have
    "m2 = m" "tr2 = map (\<lambda>cb. Invoked cb actuals m) (drop (Suc k) (arr m))"
    by simp_all
  moreover have "drop k (arr m) = arr m ! k # drop (Suc k) (arr m)"
    using k by (simp add: Cons_nth_drop_Suc)
  ultimately show ?case using r by simp
qed

section \<open>Lemmas on merging and splicing\<close>

lemma map_of_assign: "map_of (assign k v t) k' = (if k' = k then Some v else map_of t k')"
  by (induction t) auto

lemma mergeFields_untouched:
  "k \<notin> fst ` set s \<Longrightarrow> map_of (mergeFields t s) k = map_of t k"
  by (induction t s rule: mergeFields.induct) (auto simp: map_of_assign)

lemma merge_untouched: "\<not> sets_field source k \<Longrightarrow> field (merge target source) k = field target k"
  by (cases target; cases source) (auto simp: mergeFields_untouched)

lemma foldl_merge_untouched:
  "\<forall>v \<in> set chain. \<not> sets_field v k \<Longrightarrow> field (foldl merge base chain) k = field base k"
  by (induction chain arbitrary: base) (auto simp: merge_untouched)

lemma mergeFields_scalar_wins:
  "distinct (map fst s) \<Longrightarrow> (k, v) \<in> set s \<Longrightarrow> \<forall>fs. v \<noteq> JObj fs \<Longrightarrow>
     map_of (mergeFields t s) k = Some v"
  by (induction t s rule: mergeFields.induct)
    (auto simp: mergeFields_untouched map_of_assign rev_image_eqI)

lemma merge_is_object: "is_object target \<Longrightarrow> is_object (merge target source)"
  by (cases target; cases source) auto

lemma foldl_merge_is_object: "is_object base \<Longrightarrow> is_object (foldl merge base chain)"
  by (induction chain arbitrary: base) (auto simp: merge_is_object)

lemma merge_scalar_wins:
  assumes "is_object target" "sets_scalar source k v"
  shows "field (merge target source) k = Some v"
proof -
  from assms(1) obtain t where t: "target = JObj t" by (cases target) auto
  from assms(2) obtain fs where s: "source = JObj fs" "distinct (map fst fs)" "(k, v) \<in> set fs"
    "\<not> is_object v"
    by (auto simp: sets_scalar_def split: jsval.splits)
  from s(4) have "\<forall>fs'. v \<noteq> JObj fs'" by auto
  from mergeFields_scalar_wins[OF s(2,3) this] t s(1) show ?thesis by simp
qed

lemma pathTo_last: "pathTo cls t names \<Longrightarrow> names \<noteq> [] \<and> last names = t"
proof (cases "t = ''initial''")
  case True
  assume "pathTo cls t names"
  with True show ?thesis by (simp add: pathTo_def)
next
  case False
  assume "pathTo cls t names"
  with False have l: "lineage cls t (rev names)" by (simp add: pathTo_def)
  with False obtain ns where "rev names = t # ns" by (cases "rev names") auto
  then have "names = rev ns @ [t]" by (metis rev.simps(2) rev_rev_ident)
  then show ?thesis by simp
qed

lemma overlaid_target_wins:
  assumes "pathTo cls t names" "is_object base" "sets_scalar (overlayOf cls m t) k v"
  shows "field (overlaid cls m base names) k = Some v"
proof -
  from pathTo_last[OF assms(1)] obtain ns where ns: "names = ns @ [t]"
    by (metis append_butlast_last_id)
  have "overlaid cls m base names = merge (foldl merge base (map (overlayOf cls m) ns)) (overlayOf cls m t)"
    by (simp add: overlaid_def ns)
  with merge_scalar_wins[OF foldl_merge_is_object[OF assms(2)] assms(3)] show ?thesis by simp
qed

lemma overlaid_untouched:
  assumes "\<forall>n \<in> set names. \<not> sets_field (overlayOf cls m n) k"
  shows "field (overlaid cls m base names) k = field base k"
  unfolding overlaid_def using assms by (intro foldl_merge_untouched) auto

lemma js_indexOf_range: "js_indexOf xs x = - 1 \<or> 0 \<le> js_indexOf xs x"
  by (induction xs) (auto simp: Let_def)

lemma js_indexOf_absent: "x \<notin> set xs \<Longrightarrow> js_indexOf xs x = - 1"
  by (induction xs) (auto simp: Let_def)

lemma js_indexOf_present: "x \<in> set xs \<Longrightarrow> 0 \<le> js_indexOf xs x \<and> js_indexOf xs x < int (length xs)"
  by (induction xs) (auto simp: Let_def)

lemma splice_present:
  "x \<in> set xs \<Longrightarrow> js_splice xs (js_indexOf xs x) 1 = remove1 x xs"
proof (induction xs)
  case Nil
  then show ?case by simp
next
  case (Cons y ys)
  show ?case
  proof (cases "y = x")
    case True
    then show ?thesis by (simp add: js_splice_def)
  next
    case False
    with Cons.prems have mem: "x \<in> set ys" by simp
    from js_indexOf_present[OF mem] have r: "0 \<le> js_indexOf ys x" "js_indexOf ys x < int (length ys)"
      by simp_all
    from Cons.IH[OF mem] r have ih: "take (nat (js_indexOf ys x)) ys @ drop (Suc (nat (js_indexOf ys x))) ys = remove1 x ys"
      by (simp add: js_splice_def Let_def min_def)
    have n: "nat (js_indexOf ys x + 1) = Suc (nat (js_indexOf ys x))" using r by simp
    from False r ih show ?thesis
      by (simp add: js_splice_def Let_def min_def n)
  qed
qed

lemma splice_absent:
  assumes "x \<notin> set xs"
  shows "js_splice xs (js_indexOf xs x) 1 = butlast xs"
proof -
  have "js_splice xs (- 1) 1 = butlast xs"
    by (cases xs rule: rev_cases) (simp_all add: js_splice_def Let_def max_def)
  with js_indexOf_absent[OF assms] show ?thesis by simp
qed

lemmas ev = transitTo_def private_transitTo_def stateToApply_def permitted_def isInitialState_def
  makeChain_def parentChain.simps callLeaveCbs_def callEnterCbs_def applyChain_def logError_def
  Let_def store_get_def Object_prototype_members_def registered_def run_callback_def

section \<open>Successful transitions\<close>

text \<open>
  What a successful transition leaves in the property bag: the bag of before the call overlaid
  with the snapshot and then, from the root of the parent chain down to the target, with the
  overlay of each state. On the machine of the tests the path to \<open>successState\<close> has three
  states, merged in that order.
\<close>

lemma transitTo_success_bag:
  assumes "transitTo beh cls m targetState args = Some (Returned None, m', tr)"
  shows "currentState m' = targetState \<and>
         (\<exists>names. pathTo cls targetState names \<and>
            props m' = overlaid cls m (merge (props m) (initialState m)) names)"
proof -
  from transitTo_cases[OF assms] obtain m1 where nf: "\<not> transitioning m"
    and p: "private_transitTo beh cls (m\<lparr>transitioning := True\<rparr>) targetState args
              = Some (Returned None, m1, tr)"
    and m': "m' = m1\<lparr>transitioning := False\<rparr>"
    by auto
  let ?m = "m\<lparr>transitioning := True\<rparr>"
  from private_success[OF p] obtain chain m2 tr1 tr2 where
    mk: "makeChain cls targetState (stateToApply cls ?m targetState) = Some (Inr chain)"
    and lv: "callLeaveCbs beh ?m targetState = (None, m2, tr1)"
    and en: "callEnterCbs beh
               (m2\<lparr>props := applyChain (merge (props m2) (initialState m2)) chain,
                   currentState := targetState\<rparr>) (currentState m2) targetState args
             = (None, m1, tr2)"
    by blast
  from makeChain_pathTo[OF mk] obtain names where
    pt: "pathTo cls targetState names" and ch: "chain = map (overlayOf cls ?m) names"
    by blast
  have ov: "overlayOf cls ?m = overlayOf cls m" by (rule ext) (simp add: overlayOf_def)
  from callLeaveCbs_core[OF lv] have m2: "props m2 = props m" "initialState m2 = initialState m"
    by (simp_all add: same_core_def)
  from callEnterCbs_core[OF en] have
    m1: "props m1 = applyChain (merge (props m2) (initialState m2)) chain"
      "currentState m1 = targetState"
    by (simp_all add: same_core_def)
  have "props m' = overlaid cls m (merge (props m) (initialState m)) names"
    by (simp add: m' m1 m2 ch ov overlaid_def applyChain_def)
  moreover have "currentState m' = targetState" by (simp add: m' m1)
  ultimately show ?thesis using pt by blast
qed

lemma form_chain_in_order:
  "transitTo quiet form form_request ''successState'' [] = Some (Returned None, form_success, []) \<and>
   pathTo form ''successState'' [''mainState'', ''doneState'', ''successState''] \<and>
   props form_success
     = overlaid form form_request (initialState form_request)
         [''mainState'', ''doneState'', ''successState'']"
  by (simp add: ev form_def form_request_def form_success_def quiet_def pathTo_def overlaid_def
      overlayOf_def)

text \<open>
  C1. The claim asks, after a successful \<open>transitTo\<close>, for the snapshot overlaid with
  the overlays of the path to the target, so that a field no overlay of the path sets has its
  snapshot value. The code merges the snapshot onto the live bag and never removes a key. On the
  machine with the optional field \<open>extra\<close>, state A sets the field; after the next
  transition, to B, whose path sets nothing, the bag still has \<open>extra\<close>, which the snapshot
  overlaid with B does not have.
\<close>

theorem stale_field_survives:
  "StateMachine_new optional_opts = Inr optional_machine \<and>
   transitTo quiet optional optional_machine ''A'' [] = Some (Returned None, optional_A, []) \<and>
   transitTo quiet optional optional_A ''B'' [] = Some (Returned None, optional_B, []) \<and>
   pathTo optional ''B'' [''B''] \<and>
   props optional_B = JObj [(''message'', JStr ''OFF''), (''extra'', JNum 1)] \<and>
   overlaid optional optional_A (initialState optional_A) [''B''] = JObj [(''message'', JStr ''OFF'')] \<and>
   props optional_B \<noteq> overlaid optional optional_A (initialState optional_A) [''B'']"
  by (simp add: ev StateMachine_new_def cloneDeep_def optional_opts_def optional_machine_def
      optional_def optional_A_def optional_B_def pathTo_def overlaid_def overlayOf_def)

section \<open>Failed transitions\<close>

text \<open>
  C2. When \<open>transitTo\<close> fails with \<open>StateNotRegistered\<close> (the target has no truthy
  declaration on the instance) or with \<open>InvalidTransition\<close> (the target is not in the
  permitted list that applies), the condition is the value the call returns, no callback is
  invoked, and the machine after the call is the machine before it: the current state and the
  property bag are unchanged.
\<close>

theorem transitTo_failure_unchanged:
  assumes "transitTo beh cls m targetState args = Some (Returned (Some err), m', tr)"
  shows "m' = m \<and> currentState m' = currentState m \<and> props m' = props m \<and>
         (err = StateNotRegistered \<longrightarrow> \<not> truthy (stateToApply cls m targetState)) \<and>
         (err = InvalidTransition \<longrightarrow>
            truthy (stateToApply cls m targetState) \<and>
            (\<exists>allowed. permitted cls m = Inr allowed \<and> targetState \<notin> set allowed)) \<and>
         (\<forall>cb a s. Invoked cb a s \<notin> set tr)"
proof -
  from transitTo_cases[OF assms] obtain m1 where nf: "\<not> transitioning m"
    and p: "private_transitTo beh cls (m\<lparr>transitioning := True\<rparr>) targetState args
              = Some (Returned (Some err), m1, tr)"
    and m': "m' = m1\<lparr>transitioning := False\<rparr>"
    by auto
  from private_failure[OF p] have m1: "m1 = m\<lparr>transitioning := True\<rparr>"
    and d: "err = StateNotRegistered \<and> \<not> truthy (stateToApply cls (m\<lparr>transitioning := True\<rparr>) targetState) \<and>
            tr = logError (m\<lparr>transitioning := True\<rparr>) (not_registered_msg targetState)
          \<or> err = InvalidTransition \<and> truthy (stateToApply cls (m\<lparr>transitioning := True\<rparr>) targetState) \<and>
            (\<exists>allowed. permitted cls (m\<lparr>transitioning := True\<rparr>) = Inr allowed \<and> targetState \<notin> set allowed) \<and>
            tr = logError (m\<lparr>transitioning := True\<rparr>) (NEXT_STATE_RESTRICTED (currentState (m\<lparr>transitioning := True\<rparr>)) targetState)"
    by blast+
  have same: "m' = m" using m' m1 nf by (simp add: record_flag_restore2)
  have sta: "stateToApply cls (m\<lparr>transitioning := True\<rparr>) targetState = stateToApply cls m targetState"
    by (simp add: stateToApply_def)
  have per: "permitted cls (m\<lparr>transitioning := True\<rparr>) = permitted cls m"
    by (simp add: permitted_def isInitialState_def)
  have notr: "\<forall>cb a s. Invoked cb a s \<notin> set tr"
    using d by (auto simp: logError_def)
  from d sta per same notr show ?thesis by auto
qed

theorem transitTo_failure_unchanged_witness:
  "transitTo quiet traffic traffic_green ''Red'' []
     = Some (Returned (Some InvalidTransition), traffic_green, []) \<and>
   props traffic_green = JObj [(''message'', JStr ''GO''), (''safe'', JBool True)] \<and>
   truthy (stateToApply traffic traffic_green ''Red'') \<and>
   (\<exists>allowed. permitted traffic traffic_green = Inr allowed \<and> ''Red'' \<notin> set allowed) \<and>
   transitTo quiet traffic traffic_green ''Blue'' []
     = Some (Returned (Some StateNotRegistered), traffic_green, []) \<and>
   \<not> truthy (stateToApply traffic traffic_green ''Blue'')"
proof -
  have h: "transitTo quiet traffic traffic_green ''Red'' []
             = Some (Returned (Some InvalidTransition), traffic_green, [])"
    by (simp add: ev traffic_def traffic_green_def traffic_machine_def)
  have g: "transitTo quiet traffic traffic_green ''Blue'' []
             = Some (Returned (Some StateNotRegistered), traffic_green, [])"
    by (simp add: ev traffic_def traffic_green_def traffic_machine_def)
  from transitTo_failure_unchanged [OF h] transitTo_failure_unchanged [OF g] h g show ?thesis
    by (simp add: traffic_green_def)
qed

section \<open>The re-entrancy guard\<close>



section \<open>The order of callbacks\<close>

text \<open>
  When no callback registers or deregisters while it runs, a successful transition calls the
  leave callbacks of the previous state and then the enter callbacks of the target, each group
  in the order of its array.
\<close>

lemma callbacks_in_order:
  assumes nw: "\<forall>cb a s. fst (beh cb a s) = []"
    and "transitTo beh cls m targetState args = Some (Returned None, m', tr)"
  shows "tr = map (\<lambda>cb. Invoked cb [JStr targetState] (m\<lparr>transitioning := True\<rparr>))
                (registered (onLeaveCbs m) (currentState m))
            @ map (\<lambda>cb. Invoked cb (JStr (currentState m) # args) (m'\<lparr>transitioning := True\<rparr>))
                (registered (onEnterCbs m) targetState)"
proof -
  from transitTo_cases[OF assms(2)] obtain m1 where nf: "\<not> transitioning m"
    and p: "private_transitTo beh cls (m\<lparr>transitioning := True\<rparr>) targetState args
              = Some (Returned None, m1, tr)"
    and m': "m' = m1\<lparr>transitioning := False\<rparr>"
    by auto
  let ?m = "m\<lparr>transitioning := True\<rparr>"
  from private_success[OF p] obtain chain m2 tr1 tr2 where
    lv: "callLeaveCbs beh ?m targetState = (None, m2, tr1)"
    and en: "callEnterCbs beh
               (m2\<lparr>props := applyChain (merge (props m2) (initialState m2)) chain,
                   currentState := targetState\<rparr>) (currentState m2) targetState args
             = (None, m1, tr2)"
    and tr: "tr = tr1 @ tr2"
    by blast
  have l: "m2 = ?m \<and> tr1 = map (\<lambda>cb. Invoked cb [JStr targetState] ?m)
                    (registered (onLeaveCbs m) (currentState m))"
    using lv unfolding callLeaveCbs_def
    by (auto simp: Let_def store_get_def registered_def
        split: slot.splits option.splits if_splits
        dest!: forEach_no_writes[OF nw])
  let ?m3 = "m2\<lparr>props := applyChain (merge (props m2) (initialState m2)) chain,
               currentState := targetState\<rparr>"
  have e: "m1 = ?m3 \<and> tr2 = map (\<lambda>cb. Invoked cb (JStr (currentState m) # args) ?m3)
                    (registered (onEnterCbs m) targetState)"
    using en l unfolding callEnterCbs_def
    by (auto simp: Let_def store_get_def registered_def
        split: slot.splits option.splits if_splits
        dest!: forEach_no_writes[OF nw])
  have again: "m'\<lparr>transitioning := True\<rparr> = m1" using e l by (simp add: m')
  show ?thesis unfolding tr again using l e by simp
qed

text \<open>
  C4. The claim asks that all enter callbacks registered for the target run. The code
  iterates the array that the handles splice. With enter callbacks 2 and 3 registered for Green,
  where callback 2 invokes the handle of its own registration, the transition to Green succeeds
  and calls the leave callback 1 and the enter callback 2; callback 3, registered and never
  deregistered, is not called.
\<close>

theorem one_shot_skips_next:
  "registered (onEnterCbs hooked) ''Green'' = [2, 3] \<and>
   transitTo one_shot traffic hooked ''Green'' []
     = Some (Returned None, hooked_green\<lparr>onEnterCbs := [''Green'' \<mapsto> [3]]\<rparr>,
             [Invoked 1 [JStr ''Green''] (hooked\<lparr>transitioning := True\<rparr>),
              Invoked 2 [JStr ''initial''] (hooked_green\<lparr>transitioning := True\<rparr>)])"
  by (simp add: ev traffic_def hooked_def hooked_green_def traffic_machine_def one_shot_def
      js_splice_def)

section \<open>The initial state as a target\<close>

text \<open>
  C6. As amended. A call \<open>transitTo("initial")\<close> succeeds only when "initial" is in the
  permitted list that applies (the initial transitions in the initial state, the list of the
  current state otherwise), and the machine is then in the initial state again; when "initial"
  is not in that list the call does not succeed and leaves the machine as it is.
\<close>

theorem initial_only_when_listed:
  assumes "transitTo beh cls m ''initial'' args = Some (out, m', tr)"
  shows "(out = Returned None \<longrightarrow>
            (\<exists>allowed. permitted cls m = Inr allowed \<and> ''initial'' \<in> set allowed) \<and>
            currentState m' = ''initial'') \<and>
         (\<forall>allowed. permitted cls m = Inr allowed \<and> ''initial'' \<notin> set allowed \<longrightarrow>
            out \<noteq> Returned None \<and> m' = m)"
proof -
  have a: "(\<exists>allowed. permitted cls m = Inr allowed \<and> ''initial'' \<in> set allowed) \<and>
            currentState m' = ''initial''" if o: "out = Returned None"
  proof -
    from transitTo_cases[OF assms] o obtain m1 where
      p: "private_transitTo beh cls (m\<lparr>transitioning := True\<rparr>) ''initial'' args
              = Some (Returned None, m1, tr)"
      and m': "m' = m1\<lparr>transitioning := False\<rparr>"
      by auto
    from private_success[OF p] obtain allowed chain m2 tr1 tr2 where
      al: "permitted cls (m\<lparr>transitioning := True\<rparr>) = Inr allowed" "''initial'' \<in> set allowed"
      and en: "callEnterCbs beh
             (m2\<lparr>props := applyChain (merge (props m2) (initialState m2)) chain,
                 currentState := ''initial''\<rparr>) (currentState m2) ''initial'' args = (None, m1, tr2)"
      by blast
    from callEnterCbs_core[OF en] have "currentState m1 = ''initial''"
      by (simp add: same_core_def)
    with al m' show ?thesis by auto
  qed
  have b: "out \<noteq> Returned None \<and> m' = m"
    if "permitted cls m = Inr allowed" "''initial'' \<notin> set allowed" for allowed
  proof (cases "transitioning m")
    case True
    with assms show ?thesis by (auto simp: transitTo_def)
  next
    case False
    show ?thesis
    proof (cases "truthy (stateToApply cls m ''initial'')")
      case True
      from transitTo_not_permitted[OF False True that, of beh args] assms show ?thesis by auto
    next
      case nt: False
      from transitTo_unregistered[OF False nt, of beh args] assms show ?thesis by auto
    qed
  qed
  from a b show ?thesis by blast
qed

theorem initial_only_when_listed_witness:
  "transitTo quiet traffic traffic_green ''initial'' []
     = Some (Returned (Some InvalidTransition), traffic_green, []) \<and>
   permitted traffic traffic_green = Inr [''Orange''] \<and> ''initial'' \<notin> set [''Orange''] \<and>
   transitTo quiet resettable resettable_A ''initial'' []
     = Some (Returned None, resettable_machine, []) \<and>
   permitted resettable resettable_A = Inr [''initial''] \<and>
   currentState resettable_machine = ''initial''"
proof -
  have h1: "transitTo quiet traffic traffic_green ''initial'' []
     = Some (Returned (Some InvalidTransition), traffic_green, [])"
    by (simp add: ev traffic_def traffic_green_def traffic_machine_def)
  have p1: "permitted traffic traffic_green = Inr [''Orange'']"
    by (simp add: permitted_def isInitialState_def traffic_def traffic_green_def
        traffic_machine_def)
  have h2: "transitTo quiet resettable resettable_A ''initial'' []
     = Some (Returned None, resettable_machine, [])"
    by (simp add: ev resettable_def resettable_A_def resettable_machine_def quiet_def)
  have p2: "permitted resettable resettable_A = Inr [''initial'']"
    by (simp add: permitted_def isInitialState_def resettable_def resettable_A_def
        resettable_machine_def)
  from initial_only_when_listed [OF h1] initial_only_when_listed [OF h2] h1 h2 p1 p2
  show ?thesis by simp
qed

text \<open>
  As first stated, with no successful call \<open>transitTo("initial")\<close> at all, the claim fails on a
  machine whose state A lists "initial" among the states it may be left for.
\<close>

text \<open>
  As first stated, with no successful call \<open>transitTo("initial")\<close> at all, the claim fails on a
  machine whose state A lists "initial" among the states it may be left for.
\<close>

theorem initial_reached_counterexample:
  "StateMachine_new resettable_opts = Inr resettable_machine \<and>
   map_option (\<lambda>(out, m, tr). (out, currentState m))
     (transitTo quiet resettable resettable_machine ''A'' []) = Some (Returned None, ''A'') \<and>
   transitTo quiet resettable resettable_machine ''A'' [] = Some (Returned None, resettable_A, []) \<and>
   map_option (\<lambda>(out, m, tr). (out, currentState m))
     (transitTo quiet resettable resettable_A ''initial'' []) = Some (Returned None, ''initial'')"
  by (simp add: ev StateMachine_new_def cloneDeep_def resettable_opts_def resettable_machine_def
      resettable_def resettable_A_def quiet_def)

section \<open>The traffic light\<close>

text \<open>
  C7. As amended. On the traffic light, \<open>transitTo(Green)\<close> and \<open>transitTo(Orange)\<close>
  succeed with properties GO/true and CAUTION/false, and \<open>transitTo(Red)\<close> succeeds as well,
  Red being in the permitted list of Orange: the properties are then STOP/false and the current
  state is Red.
\<close>

theorem traffic_scenario:
  "StateMachine_new traffic_opts = Inr traffic_machine \<and>
   transitTo quiet traffic traffic_machine ''Green'' [] = Some (Returned None, traffic_green, []) \<and>
   props traffic_green = JObj [(''message'', JStr ''GO''), (''safe'', JBool True)] \<and>
   transitTo quiet traffic traffic_green ''Orange'' [] = Some (Returned None, traffic_orange, []) \<and>
   props traffic_orange = JObj [(''message'', JStr ''CAUTION''), (''safe'', JBool False)] \<and>
   transitTo quiet traffic traffic_orange ''Red'' [] = Some (Returned None, traffic_red, []) \<and>
   props traffic_red = JObj [(''message'', JStr ''STOP''), (''safe'', JBool False)] \<and>
   currentState traffic_red = ''Red''"
  by (simp add: ev StateMachine_new_def cloneDeep_def traffic_opts_def traffic_def
      traffic_machine_def traffic_green_def traffic_orange_def traffic_red_def)

text \<open>
  As first stated, with the third call failing with \<open>InvalidTransition\<close> and the properties
  left at CAUTION/false, the claim fails.
\<close>

text \<open>
  As first stated, with the third call failing with \<open>InvalidTransition\<close> and the properties
  left at CAUTION/false, the claim fails.
\<close>

theorem traffic_red_counterexample:
  "run_calls quiet traffic traffic_machine
     [TransitTo ''Green'' [], TransitTo ''Orange'' [], TransitTo ''Red'' []]
     = Some ([Returned None, Returned None, Returned None], traffic_red, []) \<and>
   Returned None \<noteq> Returned (Some InvalidTransition) \<and>
   props traffic_red \<noteq> JObj [(''message'', JStr ''CAUTION''), (''safe'', JBool False)]"
  by (simp add: ev traffic_def
      traffic_machine_def traffic_green_def traffic_orange_def traffic_red_def)

section \<open>Deregistration\<close>

text \<open>
  C8. The handle of a registration splices the list at \<open>indexOf(cb)\<close>. After callbacks 1
  and 2 are registered for a state, invoking the handle of 1 leaves 2; invoking it once more
  removes 2, which was never deregistered. After 1, 2 and again 1 are registered, invoking the
  handle of the last registration removes the first one and leaves 2 before 1.
\<close>

theorem deregistration_removes_another:
  "run_calls quiet traffic traffic_machine
     [OnEnter ''Green'' 1, OnEnter ''Green'' 2, Drop (EnterHandle ''Green'' 1)]
     = Some ([], traffic_machine\<lparr>onEnterCbs := [''Green'' \<mapsto> [2]]\<rparr>, []) \<and>
   run_calls quiet traffic traffic_machine
     [OnEnter ''Green'' 1, OnEnter ''Green'' 2, Drop (EnterHandle ''Green'' 1),
      Drop (EnterHandle ''Green'' 1)]
     = Some ([], traffic_machine\<lparr>onEnterCbs := [''Green'' \<mapsto> []]\<rparr>, []) \<and>
   run_calls quiet traffic traffic_machine
     [OnLeave ''initial'' 1, OnLeave ''initial'' 2, OnLeave ''initial'' 1,
      Drop (LeaveHandle ''initial'' 1)]
     = Some ([], traffic_machine\<lparr>onLeaveCbs := [''initial'' \<mapsto> [2, 1]]\<rparr>, [])"
  by (simp add: onEnter_def onLeave_def registerEnterCallback_def registerLeaveCallback_def
      store_get_def Object_prototype_members_def traffic_machine_def js_splice_def Let_def)

section \<open>Logging\<close>

text \<open>
  C9. A machine constructed with \<open>logging: false\<close> has logging on: a transition to an
  unregistered state and a transition that is not permitted each write their message with
  \<open>console.error\<close>.
\<close>

theorem logging_false_still_logs:
  "StateMachine_new (traffic_opts\<lparr>opts_logging := Some False\<rparr>)
     = Inr (traffic_machine\<lparr>logging := True\<rparr>) \<and>
   transitTo quiet traffic (traffic_machine\<lparr>logging := True\<rparr>) ''Blue'' []
     = Some (Returned (Some StateNotRegistered), traffic_machine\<lparr>logging := True\<rparr>,
             [ConsoleError (not_registered_msg ''Blue'')]) \<and>
   transitTo quiet traffic (traffic_machine\<lparr>logging := True\<rparr>) ''Red'' []
     = Some (Returned (Some InvalidTransition), traffic_machine\<lparr>logging := True\<rparr>,
             [ConsoleError (NEXT_STATE_RESTRICTED ''initial'' ''Red'')])"
  by (simp add: ev StateMachine_new_def cloneDeep_def traffic_opts_def traffic_def
      traffic_machine_def)

section \<open>Callbacks that throw\<close>

text \<open>
  C10. When a callback invoked by a \<open>transitTo\<close> call throws, the call throws the same
  exception and leaves the flag set; every later \<open>transitTo\<close> on the machine, whatever else
  the client does in between, throws the recursive-transition error.
\<close>

theorem callback_exception_disables:
  assumes "transitTo beh cls m targetState args = Some (out, m', tr)"
    and "Invoked cb a s \<in> set tr" and "fst (run_callback beh cb a s) = Some e"
  shows "out = Threw e \<and> transitioning m' \<and>
         (\<forall>beh' t' args'. transitTo beh' cls m' t' args' = Some (Threw (Error recursive_msg), m', [])) \<and>
         (\<forall>beh' calls. \<exists>m''. run_calls beh' cls m' calls
              = Some (replicate (length (filter is_transit calls)) (Threw (Error recursive_msg)), m'', []))"
proof -
  from transitTo_cases[OF assms(1)] assms(2) obtain m1 where nf: "\<not> transitioning m" and
    p: "private_transitTo beh cls (m\<lparr>transitioning := True\<rparr>) targetState args = Some (out, m1, tr)"
    and m': "case out of Returned ret \<Rightarrow> m' = m1\<lparr>transitioning := False\<rparr> | Threw e \<Rightarrow> m' = m1"
    by auto
  from private_thrower[OF p assms(2,3)] have out: "out = Threw e" .
  with m' have "m' = m1" by simp
  with private_frame[OF p] have fl: "transitioning m'" by simp
  from fl have "\<forall>beh' t' args'. transitTo beh' cls m' t' args' = Some (Threw (Error recursive_msg), m', [])"
    by (simp add: transitTo_in_flight)
  moreover from run_calls_in_flight[OF fl] have
    "\<forall>beh' calls. \<exists>m''. run_calls beh' cls m' calls
              = Some (replicate (length (filter is_transit calls)) (Threw (Error recursive_msg)), m'', [])"
    by blast
  ultimately show ?thesis using out fl by blast
qed

theorem callback_exception_disables_witness:
  "transitTo reenter traffic hooked ''Green'' []
     = Some (Threw (Error recursive_msg), hooked_green\<lparr>transitioning := True\<rparr>,
             [Invoked 1 [JStr ''Green''] (hooked\<lparr>transitioning := True\<rparr>),
              Invoked 2 [JStr ''initial''] (hooked_green\<lparr>transitioning := True\<rparr>)]) \<and>
   fst (run_callback reenter 2 [JStr ''initial''] (hooked_green\<lparr>transitioning := True\<rparr>))
     = Some (Error recursive_msg) \<and>
   transitTo quiet traffic (hooked_green\<lparr>transitioning := True\<rparr>) ''Orange'' []
     = Some (Threw (Error recursive_msg), hooked_green\<lparr>transitioning := True\<rparr>, []) \<and>
   (\<exists>m''. run_calls quiet traffic (hooked_green\<lparr>transitioning := True\<rparr>)
            [TransitTo ''Orange'' [], OnEnter ''Red'' 6, TransitTo ''Blue'' []]
          = Some ([Threw (Error recursive_msg), Threw (Error recursive_msg)], m'', []))"
proof -
  have b: "run_callback reenter 2 [JStr ''initial''] (hooked_green\<lparr>transitioning := True\<rparr>)
             = (Some (Error recursive_msg), hooked_green\<lparr>transitioning := True\<rparr>)"
    by (simp add: run_callback_def reenter_def transitTo_def)
  have b1: "run_callback reenter 1 [JStr ''Green''] (hooked\<lparr>transitioning := True\<rparr>)
              = (None, hooked\<lparr>transitioning := True\<rparr>)"
    by (simp add: run_callback_def reenter_def)
  have h: "transitTo reenter traffic hooked ''Green'' []
     = Some (Threw (Error recursive_msg), hooked_green\<lparr>transitioning := True\<rparr>,
             [Invoked 1 [JStr ''Green''] (hooked\<lparr>transitioning := True\<rparr>),
              Invoked 2 [JStr ''initial''] (hooked_green\<lparr>transitioning := True\<rparr>)])"
    using b b1
    by (simp add: transitTo_def private_transitTo_def stateToApply_def permitted_def
        isInitialState_def makeChain_def parentChain.simps callLeaveCbs_def callEnterCbs_def
        applyChain_def Let_def store_get_def registered_def
        traffic_def hooked_def hooked_green_def traffic_machine_def)
  have mem: "Invoked 2 [JStr ''initial''] (hooked_green\<lparr>transitioning := True\<rparr>)
      \<in> set [Invoked 1 [JStr ''Green''] (hooked\<lparr>transitioning := True\<rparr>),
              Invoked 2 [JStr ''initial''] (hooked_green\<lparr>transitioning := True\<rparr>)]"
    by simp
  have thr: "fst (run_callback reenter 2 [JStr ''initial''] (hooked_green\<lparr>transitioning := True\<rparr>))
     = Some (Error recursive_msg)"
    using b by simp
  from callback_exception_disables [OF h mem thr] have
    "\<forall>beh' t' args'. transitTo beh' traffic (hooked_green\<lparr>transitioning := True\<rparr>) t' args'
        = Some (Threw (Error recursive_msg), hooked_green\<lparr>transitioning := True\<rparr>, [])"
    and "\<forall>beh' calls. \<exists>m''. run_calls beh' traffic (hooked_green\<lparr>transitioning := True\<rparr>) calls
        = Some (replicate (length (filter is_transit calls)) (Threw (Error recursive_msg)), m'', [])"
    by blast+
  from this(1) [rule_format, of quiet "''Orange''" "[]"]
    this(2) [rule_format, of quiet "[TransitTo ''Orange'' [], OnEnter ''Red'' 6, TransitTo ''Blue'' []]"]
    h thr
  show ?thesis by simp
qed

end
